theory Spec2Isabelle
  imports Main
begin

section \<open>Objects, pointers and the output stream\<close>

text \<open>
  The C++ code works on heap objects reached through raw pointers
  (\<^verbatim>\<open>Component*\<close>), and every \<^verbatim>\<open>show\<close> writes to the global stream
  \<^verbatim>\<open>std::cout\<close>. The model is an explicit store: a pointer is an address, the heap
  maps the addresses of live objects to the object found there, and the stream is the
  list of the items inserted into it so far with \<^verbatim>\<open><<\<close>.

  The three concrete classes below \<^verbatim>\<open>Component\<close> are the constructors of
  \<open>object\<close>; \<^verbatim>\<open>Leaf\<close> and \<^verbatim>\<open>Leaf2\<close> have no fields, a \<^verbatim>\<open>Composite\<close> holds the
  vector \<^verbatim>\<open>m_children\<close> of child pointers.
\<close>

type_synonym addr = nat

datatype object = Leaf | Leaf2 | Composite (m_children: "addr list")

text \<open>
  One item per insertion into the stream: a string literal, the decimal of a
  \<^verbatim>\<open>size_t\<close>, a pointer (printed in an implementation-defined format, so it is kept
  as the address itself) and \<^verbatim>\<open>std::endl\<close>.
\<close>

datatype out = Str string | Num nat | Ptr addr | Endl

record world =
  heap :: "addr \<rightharpoonup> object"
  cout :: "out list"

text \<open>
  Calling a member function through a pointer that is null or dangling is undefined
  behaviour in C++; in the model it is the error value \<open>InvalidPointer\<close>, and so is a
  call of a \<^verbatim>\<open>Composite\<close> member through a pointer to an object of another class.
\<close>

datatype error = InvalidPointer

section \<open>Composite pattern (structural\_pattern.cpp)\<close>

definition Leaf_show :: "addr \<Rightarrow> world \<Rightarrow> world" where
  "Leaf_show this w = w\<lparr>cout := cout w @ [Str ''Leaf '', Ptr this, Endl]\<rparr>"

definition Leaf2_show :: "addr \<Rightarrow> world \<Rightarrow> world" where
  "Leaf2_show this w = w\<lparr>cout := cout w @ [Str ''Leaf2 '', Ptr this, Endl]\<rparr>"

text \<open>
  \<^verbatim>\<open>Composite::show\<close> calls \<^verbatim>\<open>show\<close> on its children, which may be composites
  again, and nothing in the code prevents a composite from being reachable from
  itself: on such a heap the recursion never returns. The first argument bounds the
  depth of nested calls that are still allowed (the stack): \<open>None\<close> means that the
  bound was reached. \<open>Component_show\<close> is the virtual call \<^verbatim>\<open>p->show()\<close>, dispatching
  on the class of the object at \<open>p\<close>; \<open>Composite_show\<close> is the body of
  \<^verbatim>\<open>Composite::show\<close>, and \<open>Composite_show_loop\<close> its \<^verbatim>\<open>for\<close> loop over the
  remaining children. No \<^verbatim>\<open>show\<close> writes to a vector, so the iterators of the loop
  stay valid and the loop runs over the children as they were when it started.
  \<^verbatim>\<open>m_children.size()\<close> is a \<^verbatim>\<open>size_t\<close>; a vector that fits in memory never
  reaches its bound, and the count is a natural number.
\<close>

fun Component_show :: "nat \<Rightarrow> addr \<Rightarrow> world \<Rightarrow> (error + world) option"
  and Composite_show :: "nat \<Rightarrow> addr \<Rightarrow> world \<Rightarrow> (error + world) option"
  and Composite_show_loop :: "nat \<Rightarrow> addr list \<Rightarrow> world \<Rightarrow> (error + world) option"
where
  "Component_show 0 p w = None"
| "Component_show (Suc n) p w =
     (case heap w p of
        None \<Rightarrow> Some (Inl InvalidPointer)
      | Some Leaf \<Rightarrow> Some (Inr (Leaf_show p w))
      | Some Leaf2 \<Rightarrow> Some (Inr (Leaf2_show p w))
      | Some (Composite cs) \<Rightarrow> Composite_show n p w)"
| "Composite_show n this w =
     (case heap w this of
        Some (Composite cs) \<Rightarrow>
          Composite_show_loop n cs
            (w\<lparr>cout := cout w @ [Str ''Size:'', Num (length cs), Endl]\<rparr>)
      | _ \<Rightarrow> Some (Inl InvalidPointer))"
| "Composite_show_loop n [] w = Some (Inr w)"
| "Composite_show_loop n (c # cs) w =
     (case Component_show n c w of
        None \<Rightarrow> None
      | Some (Inl e) \<Rightarrow> Some (Inl e)
      | Some (Inr w') \<Rightarrow> Composite_show_loop n cs w')"

text \<open>\<^verbatim>\<open>add\<close> is \<^verbatim>\<open>push_back\<close>: the new child goes to the end of the vector.\<close>

definition Composite_add :: "addr \<Rightarrow> addr \<Rightarrow> world \<Rightarrow> error + world" where
  "Composite_add this c w =
     (case heap w this of
        Some (Composite cs) \<Rightarrow> Inr (w\<lparr>heap := (heap w)(this \<mapsto> Composite (cs @ [c]))\<rparr>)
      | _ \<Rightarrow> Inl InvalidPointer)"

text \<open>
  \<^verbatim>\<open>std::find\<close> returns the position of the first element equal to the value (here:
  the same pointer), or the end of the range; \<^verbatim>\<open>erase\<close> removes the element at a
  position.
\<close>

fun std_find :: "'a list \<Rightarrow> 'a \<Rightarrow> nat" where
  "std_find [] c = 0"
| "std_find (x # xs) c = (if x = c then 0 else Suc (std_find xs c))"

definition erase :: "'a list \<Rightarrow> nat \<Rightarrow> 'a list" where
  "erase xs i = take i xs @ drop (Suc i) xs"

definition Composite_remove :: "addr \<Rightarrow> addr \<Rightarrow> world \<Rightarrow> error + world" where
  "Composite_remove this c w =
     (case heap w this of
        Some (Composite cs) \<Rightarrow>
          (let it = std_find cs c in
           if it \<noteq> length cs
           then Inr (w\<lparr>heap := (heap w)(this \<mapsto> Composite (erase cs it))\<rparr>)
           else Inr w)
      | _ \<Rightarrow> Inl InvalidPointer)"

text \<open>
  \<^verbatim>\<open>getChildren\<close> returns the vector by value: the caller gets a copy of the pointer
  sequence, and the composite is not changed.
\<close>

definition Composite_getChildren :: "addr \<Rightarrow> world \<Rightarrow> error + addr list" where
  "Composite_getChildren this w =
     (case heap w this of
        Some (Composite cs) \<Rightarrow> Inr cs
      | _ \<Rightarrow> Inl InvalidPointer)"

text \<open>
  \<^verbatim>\<open>new T()\<close> yields a pointer to a fresh object; \<open>new p obj\<close> is the allocation
  whose result is the address \<open>p\<close>. Nothing is ever deleted in the code, so the
  addresses of the objects created in one run are pairwise distinct, which the
  theorems about such a run assume.
\<close>

definition new :: "addr \<Rightarrow> object \<Rightarrow> world \<Rightarrow> world" where
  "new p obj w = w\<lparr>heap := (heap w)(p \<mapsto> obj)\<rparr>"

text \<open>A short-circuiting sequence of two fallible steps.\<close>

definition and_then :: "error + 'a \<Rightarrow> ('a \<Rightarrow> error + 'b) \<Rightarrow> error + 'b" where
  "and_then r f = (case r of Inl e \<Rightarrow> Inl e | Inr x \<Rightarrow> f x)"

text \<open>
  The demo \<^verbatim>\<open>composite()\<close> of main.cpp: seven allocations (their addresses are the
  first seven arguments, in the order of the \<^verbatim>\<open>new\<close> expressions), the calls of
  \<^verbatim>\<open>add\<close>, and \<^verbatim>\<open>tree->show()\<close> at the end.
\<close>

definition composite ::
  "addr \<Rightarrow> addr \<Rightarrow> addr \<Rightarrow> addr \<Rightarrow> addr \<Rightarrow> addr \<Rightarrow> addr \<Rightarrow> nat \<Rightarrow> world
     \<Rightarrow> (error + world) option" where
  "composite tree a b c tree2 d e n w =
     (case
        and_then (Composite_add tree a (new a Leaf (new tree (Composite []) w))) (\<lambda>w.
        and_then (Composite_add tree b (new b Leaf w)) (\<lambda>w.
        and_then (Composite_add tree c (new c Leaf2 w)) (\<lambda>w.
        and_then (Composite_add tree tree2 (new tree2 (Composite []) w)) (\<lambda>w.
        and_then (Composite_add tree2 d (new d Leaf w)) (\<lambda>w.
        Composite_add tree2 e (new e Leaf2 w))))))
      of Inl err \<Rightarrow> Some (Inl err)
       | Inr w' \<Rightarrow> Component_show n tree w')"

section \<open>The tree below a pointer, and the rendering the specification describes\<close>

text \<open>
  A finite tree of leaves and composites, as a value. The leaves carry a label, which
  is the address of the leaf object when the tree is read off a heap, and nothing at
  all (\<open>shape\<close>) when only the structure and the order of the children matter.
\<close>

datatype 'a tree = TLeaf 'a | TLeaf2 'a | TComposite "'a tree list"


text \<open>
  \<open>subtree_at h p t\<close>: following the child pointers from \<open>p\<close> in the heap \<open>h\<close>
  unfolds to the finite tree \<open>t\<close>: every pointer reachable from \<open>p\<close> is valid,
  and no composite is reached again below itself. There is at most one such \<open>t\<close>.
\<close>

fun subtree_at :: "(addr \<rightharpoonup> object) \<Rightarrow> addr \<Rightarrow> addr tree \<Rightarrow> bool" where
  "subtree_at h p (TLeaf a) = (h p = Some Leaf \<and> a = p)"
| "subtree_at h p (TLeaf2 a) = (h p = Some Leaf2 \<and> a = p)"
| "subtree_at h p (TComposite ts) =
     (case h p of
        Some (Composite cs) \<Rightarrow> list_all2 (\<lambda>c t. subtree_at h c t) cs ts
      | _ \<Rightarrow> False)"

text \<open>The nesting depth of a tree: the number of nested \<^verbatim>\<open>show\<close> calls it takes.\<close>

fun depth :: "'a tree \<Rightarrow> nat" where
  "depth (TLeaf a) = 1"
| "depth (TLeaf2 a) = 1"
| "depth (TComposite ts) = Suc (foldr max (map depth ts) 0)"

text \<open>
  The rendering in the words of the specification: a leaf produces its own display
  line; a composite first emits the count of its immediate children, then the
  renderings of the children in order (pre-order, depth-first).
\<close>

fun spec_render :: "addr tree \<Rightarrow> out list" where
  "spec_render (TLeaf a) = [Str ''Leaf '', Ptr a, Endl]"
| "spec_render (TLeaf2 a) = [Str ''Leaf2 '', Ptr a, Endl]"
| "spec_render (TComposite ts) =
     [Str ''Size:'', Num (length ts), Endl] @ concat (map spec_render ts)"


text \<open>
  The construction of the end-to-end scenario of the specification: a root composite,
  two leaves added to it, then a second composite added to the root, and a
  \<^verbatim>\<open>Leaf2\<close> added to that one. The five addresses are those of the five new
  objects, in the order of their creation.
\<close>

definition spec_scenario :: "addr \<Rightarrow> addr \<Rightarrow> addr \<Rightarrow> addr \<Rightarrow> addr \<Rightarrow> world \<Rightarrow> error + world" where
  "spec_scenario root l1 l2 child l3 w =
     and_then (Composite_add root l1 (new l1 Leaf (new root (Composite []) w))) (\<lambda>w.
     and_then (Composite_add root l2 (new l2 Leaf w)) (\<lambda>w.
     and_then (Composite_add root child (new child (Composite []) w)) (\<lambda>w.
     Composite_add child l3 (new l3 Leaf2 w))))"

text \<open>
  The pointer graph of a heap: \<open>(c, p)\<close> is an edge when \<open>c\<close> occurs among the
  children of the composite at \<open>p\<close>.
\<close>

definition child_rel :: "(addr \<rightharpoonup> object) \<Rightarrow> (addr \<times> addr) set" where
  "child_rel h = {(c, p). \<exists>cs. h p = Some (Composite cs) \<and> c \<in> set cs}"

text \<open>Small heaps on which the theorems below are run.\<close>

abbreviation heap_mixed :: "addr \<rightharpoonup> object" where
  "heap_mixed \<equiv> [1 \<mapsto> Composite [2, 3, 4], 2 \<mapsto> Leaf,
     3 \<mapsto> Composite [5], 4 \<mapsto> Leaf2, 5 \<mapsto> Leaf]"

abbreviation heap_nested :: "addr \<rightharpoonup> object" where
  "heap_nested \<equiv> [1 \<mapsto> Composite [2, 3, 4], 2 \<mapsto> Composite [],
     3 \<mapsto> Leaf, 4 \<mapsto> Leaf]"



abbreviation heap_small :: "addr \<rightharpoonup> object" where
  "heap_small \<equiv> [1 \<mapsto> Composite [2], 2 \<mapsto> Leaf2]"


abbreviation heap_deep :: "addr \<rightharpoonup> object" where
  "heap_deep \<equiv> [1 \<mapsto> Composite [2, 5], 2 \<mapsto> Composite [3],
     3 \<mapsto> Composite [4], 4 \<mapsto> Composite [], 5 \<mapsto> Leaf]"

abbreviation heap_dup :: "addr \<rightharpoonup> object" where
  "heap_dup \<equiv> [1 \<mapsto> Composite [2, 3, 2, 4], 2 \<mapsto> Leaf,
     3 \<mapsto> Leaf2, 4 \<mapsto> Leaf]"

abbreviation heap_pair :: "addr \<rightharpoonup> object" where
  "heap_pair \<equiv> [1 \<mapsto> Composite [2, 3], 2 \<mapsto> Leaf, 3 \<mapsto> Leaf2]"

section \<open>Visitor pattern (behavioral\_pattern.cpp)\<close>

text \<open>
  The visitor and element classes have no fields, and no handler uses its argument or
  \<^verbatim>\<open>this\<close>: an object is modelled by its dynamic class. The two overloads of
  \<^verbatim>\<open>Visitor::visit\<close> are two virtual functions, told apart by the static type of the
  argument; each is overridden in both concrete visitors.
\<close>

datatype visitor = ConcreteVisitor1 | ConcreteVisitor2

datatype element = ConcreteElement1 | ConcreteElement2

definition ConcreteVisitor1_visit_ConcreteElement1 :: "world \<Rightarrow> world" where
  "ConcreteVisitor1_visit_ConcreteElement1 w =
     w\<lparr>cout := cout w @ [Str ''ConcreteVisitor1 visit concrete element1'', Endl]\<rparr>"

definition ConcreteVisitor1_visit_ConcreteElement2 :: "world \<Rightarrow> world" where
  "ConcreteVisitor1_visit_ConcreteElement2 w =
     w\<lparr>cout := cout w @ [Str ''ConcreteVisitor1 visit concrete element2'', Endl]\<rparr>"

definition ConcreteVisitor2_visit_ConcreteElement1 :: "world \<Rightarrow> world" where
  "ConcreteVisitor2_visit_ConcreteElement1 w =
     w\<lparr>cout := cout w @ [Str ''ConcreteVisitor2 visit concrete element1'', Endl]\<rparr>"

definition ConcreteVisitor2_visit_ConcreteElement2 :: "world \<Rightarrow> world" where
  "ConcreteVisitor2_visit_ConcreteElement2 w =
     w\<lparr>cout := cout w @ [Str ''ConcreteVisitor2 visit concrete element2'', Endl]\<rparr>"

text \<open>The virtual call \<^verbatim>\<open>v->visit(e)\<close> for each static type of \<open>e\<close>.\<close>

fun Visitor_visit_ConcreteElement1 :: "visitor \<Rightarrow> world \<Rightarrow> world" where
  "Visitor_visit_ConcreteElement1 ConcreteVisitor1 w = ConcreteVisitor1_visit_ConcreteElement1 w"
| "Visitor_visit_ConcreteElement1 ConcreteVisitor2 w = ConcreteVisitor2_visit_ConcreteElement1 w"

fun Visitor_visit_ConcreteElement2 :: "visitor \<Rightarrow> world \<Rightarrow> world" where
  "Visitor_visit_ConcreteElement2 ConcreteVisitor1 w = ConcreteVisitor1_visit_ConcreteElement2 w"
| "Visitor_visit_ConcreteElement2 ConcreteVisitor2 w = ConcreteVisitor2_visit_ConcreteElement2 w"

text \<open>
  In \<^verbatim>\<open>ConcreteElement1::accept\<close> the type of \<^verbatim>\<open>this\<close> is
  \<^verbatim>\<open>ConcreteElement1*\<close>, so \<^verbatim>\<open>v->visit(this)\<close> is the first overload; in
  \<^verbatim>\<open>ConcreteElement2::accept\<close> it is the second.
\<close>

definition ConcreteElement1_accept :: "visitor \<Rightarrow> world \<Rightarrow> world" where
  "ConcreteElement1_accept v w = Visitor_visit_ConcreteElement1 v w"

definition ConcreteElement2_accept :: "visitor \<Rightarrow> world \<Rightarrow> world" where
  "ConcreteElement2_accept v w = Visitor_visit_ConcreteElement2 v w"

text \<open>The virtual call \<^verbatim>\<open>e->accept(v)\<close>.\<close>

fun Element_accept :: "element \<Rightarrow> visitor \<Rightarrow> world \<Rightarrow> world" where
  "Element_accept ConcreteElement1 v w = ConcreteElement1_accept v w"
| "Element_accept ConcreteElement2 v w = ConcreteElement2_accept v w"

text \<open>
  The operation the specification registers for each pair: the handler of that
  visitor for that element variant.
\<close>

fun registered :: "element \<Rightarrow> visitor \<Rightarrow> world \<Rightarrow> world" where
  "registered ConcreteElement1 ConcreteVisitor1 = ConcreteVisitor1_visit_ConcreteElement1"
| "registered ConcreteElement1 ConcreteVisitor2 = ConcreteVisitor2_visit_ConcreteElement1"
| "registered ConcreteElement2 ConcreteVisitor1 = ConcreteVisitor1_visit_ConcreteElement2"
| "registered ConcreteElement2 ConcreteVisitor2 = ConcreteVisitor2_visit_ConcreteElement2"

section \<open>The code renders the tree below the pointer\<close>

text \<open>
  The two directions of the correspondence between \<open>Component_show\<close> and
  \<open>spec_render\<close>: on a heap that unfolds to a tree the call returns, with the
  rendering of that tree appended to the stream and nothing else changed; and a call
  that returns has found such a tree, no deeper than the bound on nested calls.
\<close>

lemma depth_le: "t \<in> set ts \<Longrightarrow> depth t \<le> foldr max (map depth ts) 0"
  by (induction ts) auto

lemma loop_up:
  assumes "list_all2 (subtree_at h) cs ts"
    and "\<And>t c w. t \<in> set ts \<Longrightarrow> subtree_at h c t \<Longrightarrow> heap w = h \<Longrightarrow>
           Component_show n c w = Some (Inr (w\<lparr>cout := cout w @ spec_render t\<rparr>))"
    and "heap w = h"
  shows "Composite_show_loop n cs w = Some (Inr (w\<lparr>cout := cout w @ concat (map spec_render ts)\<rparr>))"
  using assms
proof (induction cs ts arbitrary: w rule: list_all2_induct)
  case Nil
  then show ?case by simp
next
  case (Cons c cs t ts)
  have 1: "Component_show n c w = Some (Inr (w\<lparr>cout := cout w @ spec_render t\<rparr>))"
    using Cons.prems(1)[of t c w] Cons.hyps(1) Cons.prems(2) by simp
  have 2: "Composite_show_loop n cs (w\<lparr>cout := cout w @ spec_render t\<rparr>) =
      Some (Inr (w\<lparr>cout := cout w @ spec_render t\<rparr>\<lparr>cout := cout (w\<lparr>cout := cout w @ spec_render t\<rparr>) @ concat (map spec_render ts)\<rparr>))"
    by (rule Cons.IH) (use Cons.prems in auto)
  show ?case using 1 2 by simp
qed

lemma show_up:
  "subtree_at (heap w) p t \<Longrightarrow> depth t \<le> n \<Longrightarrow>
   Component_show n p w = Some (Inr (w\<lparr>cout := cout w @ spec_render t\<rparr>))"
proof (induction t arbitrary: p w n)
  case (TLeaf a)
  then show ?case by (cases n) (auto simp: Leaf_show_def)
next
  case (TLeaf2 a)
  then show ?case by (cases n) (auto simp: Leaf2_show_def)
next
  case (TComposite ts)
  from TComposite.prems(2) obtain m where n: "n = Suc m" and m: "foldr max (map depth ts) 0 \<le> m"
    by (cases n) auto
  from TComposite.prems(1) obtain cs where cs: "heap w p = Some (Composite cs)"
    and all: "list_all2 (subtree_at (heap w)) cs ts"
    by (auto split: option.splits object.splits)
  let ?w = "w\<lparr>cout := cout w @ [Str ''Size:'', Num (length cs), Endl]\<rparr>"
  have "Composite_show_loop m cs ?w = Some (Inr (?w\<lparr>cout := cout ?w @ concat (map spec_render ts)\<rparr>))"
  proof (rule loop_up[where h = "heap w"])
    show "list_all2 (subtree_at (heap w)) cs ts" by (rule all)
    show "heap ?w = heap w" by simp
    fix t c and w' :: world
    assume "t \<in> set ts" "subtree_at (heap w) c t" "heap w' = heap w"
    then show "Component_show m c w' = Some (Inr (w'\<lparr>cout := cout w' @ spec_render t\<rparr>))"
      using TComposite.IH[of t w' c m] depth_le[of t ts] m by simp
  qed
  moreover have "length cs = length ts" using all by (rule list_all2_lengthD)
  ultimately show ?case using n cs by simp
qed

lemma show_down_all:
  "\<forall>w1. Component_show n p w = Some (Inr w1) \<longrightarrow>
     (\<exists>t. subtree_at (heap w) p t \<and> depth t \<le> n \<and> w1 = w\<lparr>cout := cout w @ spec_render t\<rparr>)"
  "\<forall>w1. Composite_show n this w = Some (Inr w1) \<longrightarrow>
     (\<exists>cs ts. heap w this = Some (Composite cs) \<and>
        list_all2 (subtree_at (heap w)) cs ts \<and> foldr max (map depth ts) 0 \<le> n \<and>
        w1 = w\<lparr>cout := cout w @ [Str ''Size:'', Num (length cs), Endl]
                             @ concat (map spec_render ts)\<rparr>)"
  "\<forall>w1. Composite_show_loop n cs w = Some (Inr w1) \<longrightarrow>
     (\<exists>ts. list_all2 (subtree_at (heap w)) cs ts \<and> foldr max (map depth ts) 0 \<le> n \<and>
        w1 = w\<lparr>cout := cout w @ concat (map spec_render ts)\<rparr>)"
proof (induction n p w and n this w and n cs w
    rule: Component_show_Composite_show_Composite_show_loop.induct)
  case (1 p w)
  show ?case by simp
next
  case (2 n p w)
  show ?case
  proof (intro allI impI)
    fix w1
    assume run: "Component_show (Suc n) p w = Some (Inr w1)"
    show "\<exists>t. subtree_at (heap w) p t \<and> depth t \<le> Suc n \<and> w1 = w\<lparr>cout := cout w @ spec_render t\<rparr>"
    proof (cases "heap w p")
      case None
      with run show ?thesis by simp
    next
      case (Some obj)
      show ?thesis
      proof (cases obj)
        case Leaf
        with Some run have "subtree_at (heap w) p (TLeaf p) \<and> depth (TLeaf p :: addr tree) \<le> Suc n
            \<and> w1 = w\<lparr>cout := cout w @ spec_render (TLeaf p)\<rparr>"
          by (auto simp: Leaf_show_def)
        then show ?thesis by blast
      next
        case Leaf2
        with Some run have "subtree_at (heap w) p (TLeaf2 p) \<and> depth (TLeaf2 p :: addr tree) \<le> Suc n
            \<and> w1 = w\<lparr>cout := cout w @ spec_render (TLeaf2 p)\<rparr>"
          by (auto simp: Leaf2_show_def)
        then show ?thesis by blast
      next
        case (Composite cs)
        with Some run have "Composite_show n p w = Some (Inr w1)" by simp
        with "2.IH"[OF Some Composite] Some Composite obtain ts where
          ts: "list_all2 (subtree_at (heap w)) cs ts" "foldr max (map depth ts) 0 \<le> n"
            "w1 = w\<lparr>cout := cout w @ [Str ''Size:'', Num (length cs), Endl]
                                  @ concat (map spec_render ts)\<rparr>"
          by auto
        have "length cs = length ts" using ts(1) by (rule list_all2_lengthD)
        with ts Some Composite
        have "subtree_at (heap w) p (TComposite ts) \<and> depth (TComposite ts) \<le> Suc n
            \<and> w1 = w\<lparr>cout := cout w @ spec_render (TComposite ts)\<rparr>"
          by simp
        then show ?thesis by blast
      qed
    qed
  qed
next
  case (3 n this w)
  show ?case
  proof (intro allI impI)
    fix w1
    assume run: "Composite_show n this w = Some (Inr w1)"
    then obtain cs where cs: "heap w this = Some (Composite cs)"
      by (auto split: option.splits object.splits)
    with run have "Composite_show_loop n cs
        (w\<lparr>cout := cout w @ [Str ''Size:'', Num (length cs), Endl]\<rparr>) = Some (Inr w1)"
      by simp
    with "3.IH"[OF cs refl] obtain ts where
      "list_all2 (subtree_at (heap w)) cs ts" "foldr max (map depth ts) 0 \<le> n"
      "w1 = w\<lparr>cout := cout w @ [Str ''Size:'', Num (length cs), Endl]
                            @ concat (map spec_render ts)\<rparr>"
      by fastforce
    with cs show "\<exists>cs ts. heap w this = Some (Composite cs) \<and>
        list_all2 (subtree_at (heap w)) cs ts \<and> foldr max (map depth ts) 0 \<le> n \<and>
        w1 = w\<lparr>cout := cout w @ [Str ''Size:'', Num (length cs), Endl]
                             @ concat (map spec_render ts)\<rparr>"
      by blast
  qed
next
  case (4 n w)
  show ?case by simp
next
  case (5 n c cs w)
  show ?case
  proof (intro allI impI)
    fix w1
    assume run: "Composite_show_loop n (c # cs) w = Some (Inr w1)"
    then obtain w' where c: "Component_show n c w = Some (Inr w')"
      and rest: "Composite_show_loop n cs w' = Some (Inr w1)"
      by (auto split: option.splits sum.splits)
    from "5.IH"(1) c obtain t where t: "subtree_at (heap w) c t" "depth t \<le> n"
      "w' = w\<lparr>cout := cout w @ spec_render t\<rparr>" by blast
    from "5.IH"(2)[OF c refl] rest obtain ts where ts: "list_all2 (subtree_at (heap w')) cs ts"
      "foldr max (map depth ts) 0 \<le> n" "w1 = w'\<lparr>cout := cout w' @ concat (map spec_render ts)\<rparr>"
      by blast
    from t ts have "list_all2 (subtree_at (heap w)) (c # cs) (t # ts) \<and>
        foldr max (map depth (t # ts)) 0 \<le> n \<and>
        w1 = w\<lparr>cout := cout w @ concat (map spec_render (t # ts))\<rparr>"
      by simp
    then show "\<exists>ts. list_all2 (subtree_at (heap w)) (c # cs) ts \<and> foldr max (map depth ts) 0 \<le> n \<and>
        w1 = w\<lparr>cout := cout w @ concat (map spec_render ts)\<rparr>"
      by blast
  qed
qed

lemma subtree_at_unique:
  "subtree_at h p t \<Longrightarrow> subtree_at h p t' \<Longrightarrow> t = t'"
proof (induction t arbitrary: p t')
  case (TLeaf a)
  then show ?case by (cases t') (auto split: option.splits object.splits)
next
  case (TLeaf2 a)
  then show ?case by (cases t') (auto split: option.splits object.splits)
next
  case (TComposite ts)
  from TComposite.prems(1) obtain cs where cs: "h p = Some (Composite cs)"
    and all: "list_all2 (subtree_at h) cs ts"
    by (auto split: option.splits object.splits)
  from TComposite.prems(2) cs obtain ts' where t': "t' = TComposite ts'"
    and all': "list_all2 (subtree_at h) cs ts'"
    by (cases t') auto
  have len: "length cs = length ts" "length cs = length ts'"
    using list_all2_lengthD[OF all] list_all2_lengthD[OF all'] by simp_all
  have "ts = ts'"
  proof (rule nth_equalityI)
    show "length ts = length ts'" using len by simp
    fix i assume i: "i < length ts"
    then have "subtree_at h (cs ! i) (ts ! i)" "subtree_at h (cs ! i) (ts' ! i)"
      using all all' len by (simp_all add: list_all2_conv_all_nth)
    moreover have "ts ! i \<in> set ts" using i by simp
    ultimately show "ts ! i = ts' ! i" using TComposite.IH by blast
  qed
  with t' show ?case by simp
qed

lemma show_down:
  "Component_show n p w = Some (Inr w1) \<Longrightarrow>
     \<exists>t. subtree_at (heap w) p t \<and> depth t \<le> n \<and> w1 = w\<lparr>cout := cout w @ spec_render t\<rparr>"
  using show_down_all(1) by blast

lemma Composite_show_down:
  "Composite_show n this w = Some (Inr w1) \<Longrightarrow>
     \<exists>cs ts. heap w this = Some (Composite cs) \<and>
        list_all2 (subtree_at (heap w)) cs ts \<and> foldr max (map depth ts) 0 \<le> n \<and>
        w1 = w\<lparr>cout := cout w @ [Str ''Size:'', Num (length cs), Endl]
                             @ concat (map spec_render ts)\<rparr>"
  using show_down_all(2) by blast

section \<open>Pre-order rendering\<close>

text \<open>
  Claim C1. Render on a composite (\<^verbatim>\<open>Composite::show\<close>, and the virtual call that
  reaches it) first emits the count of its immediate children and then renders each
  child in the order of \<^verbatim>\<open>m_children\<close>, which is the order of insertion, since
  \<^verbatim>\<open>add\<close> puts a new child behind all the others. With \<open>ts\<close> the trees below the
  children \<open>cs\<close>, the call appends the size line followed by the renderings of
  \<open>ts\<close> in order, each of which is what render on that child alone emits: the
  depth-first pre-order linearization \<open>spec_render\<close> of the subtree, every size line
  immediately before the content of its subtree.
\<close>
theorem Composite_show_preorder:
  assumes "heap w p = Some (Composite cs)"
    and "list_all2 (subtree_at (heap w)) cs ts"
    and "\<forall>t \<in> set ts. depth t \<le> n"
  shows "Composite_show n p w =
           Some (Inr (w\<lparr>cout := cout w @ [Str ''Size:'', Num (length cs), Endl]
                                   @ concat (map spec_render ts)\<rparr>)) \<and>
         Component_show (Suc n) p w = Composite_show n p w \<and>
         (\<forall>i < length cs. \<forall>w'. heap w' = heap w \<longrightarrow>
            Component_show n (cs ! i) w' =
              Some (Inr (w'\<lparr>cout := cout w' @ spec_render (ts ! i)\<rparr>))) \<and>
         Composite_add p c w = Inr (w\<lparr>heap := (heap w)(p \<mapsto> Composite (cs @ [c]))\<rparr>)"
proof (intro conjI allI impI)
  have len: "length cs = length ts" using assms(2) by (rule list_all2_lengthD)
  have call: "Component_show (Suc n) p w = Composite_show n p w"
    using assms(1) by simp
  have "foldr max (map depth ts) 0 \<le> n" using assms(3) by (induction ts) auto
  then have "depth (TComposite ts) \<le> Suc n" by simp
  moreover have "subtree_at (heap w) p (TComposite ts)" using assms(1,2) by simp
  ultimately have "Component_show (Suc n) p w =
      Some (Inr (w\<lparr>cout := cout w @ spec_render (TComposite ts)\<rparr>))"
    by (simp only: show_up)
  then show "Composite_show n p w =
           Some (Inr (w\<lparr>cout := cout w @ [Str ''Size:'', Num (length cs), Endl]
                                   @ concat (map spec_render ts)\<rparr>))"
    using len call by simp
  show "Component_show (Suc n) p w = Composite_show n p w" by (rule call)
  show "Composite_add p c w = Inr (w\<lparr>heap := (heap w)(p \<mapsto> Composite (cs @ [c]))\<rparr>)"
    using assms(1) by (simp add: Composite_add_def)
next
  fix i and w' :: world
  assume i: "i < length cs" and w': "heap w' = heap w"
  have len: "length cs = length ts" using assms(2) by (rule list_all2_lengthD)
  from assms(2) i have "subtree_at (heap w') (cs ! i) (ts ! i)"
    using w' by (simp add: list_all2_conv_all_nth)
  moreover have "depth (ts ! i) \<le> n" using assms(3) i len by simp
  ultimately show "Component_show n (cs ! i) w' =
      Some (Inr (w'\<lparr>cout := cout w' @ spec_render (ts ! i)\<rparr>))"
    by (rule show_up)
qed

theorem Composite_show_preorder_witness:
  "heap \<lparr>heap = heap_mixed, cout = []\<rparr> 1 = Some (Composite [2, 3, 4]) \<and>
   list_all2 (subtree_at (heap \<lparr>heap = heap_mixed, cout = []\<rparr>))
     [2, 3, 4] [TLeaf 2, TComposite [TLeaf 5], TLeaf2 4] \<and>
   depth (TLeaf (2::addr)) \<le> 2 \<and> depth (TComposite [TLeaf (5::addr)]) \<le> 2 \<and>
   depth (TLeaf2 (4::addr)) \<le> 2 \<and>
   Composite_show 2 1 \<lparr>heap = heap_mixed, cout = []\<rparr> =
     Some (Inr \<lparr>heap = heap_mixed,
       cout = [Str ''Size:'', Num 3, Endl, Str ''Leaf '', Ptr 2, Endl,
               Str ''Size:'', Num 1, Endl, Str ''Leaf '', Ptr 5, Endl,
               Str ''Leaf2 '', Ptr 4, Endl]\<rparr>) \<and>
   Component_show (Suc 2) 1 \<lparr>heap = heap_mixed, cout = []\<rparr> =
     Composite_show 2 1 \<lparr>heap = heap_mixed, cout = []\<rparr> \<and>
   Component_show 2 3 \<lparr>heap = heap_mixed, cout = [Endl]\<rparr> =
     Some (Inr \<lparr>heap = heap_mixed,
       cout = [Endl, Str ''Size:'', Num 1, Endl, Str ''Leaf '', Ptr 5, Endl]\<rparr>) \<and>
   Composite_add 1 6 \<lparr>heap = heap_mixed, cout = []\<rparr> =
     Inr \<lparr>heap = heap_mixed(1 \<mapsto> Composite [2, 3, 4, 6]), cout = []\<rparr>"
  using Composite_show_preorder [of "\<lparr>heap = heap_mixed, cout = []\<rparr>" 1 "[2, 3, 4]"
      "[TLeaf 2, TComposite [TLeaf 5], TLeaf2 4]" 2 6]
  by (simp add: eval_nat_numeral Leaf_show_def)

section \<open>Scenarios\<close>

lemma spec_scenario_heap:
  assumes "distinct [root, l1, l2, child, l3]"
  shows "spec_scenario root l1 l2 child l3 w0 =
     Inr (w0\<lparr>heap := (heap w0)(root \<mapsto> Composite [l1, l2, child], l1 \<mapsto> Leaf, l2 \<mapsto> Leaf,
                child \<mapsto> Composite [l3], l3 \<mapsto> Leaf2)\<rparr>)"
  using assms
  by (auto simp: spec_scenario_def and_then_def Composite_add_def new_def fun_upd_def
      intro!: arg_cong2[where f = "\<lambda>h w. w\<lparr>heap := h\<rparr>"])

text \<open>
  Claim C3. After \<^verbatim>\<open>root = Composite(); root.add(Leaf()); root.add(Leaf());
  child = Composite(); root.add(child); child.add(LeafVariant2())\<close>, render on the
  root outputs, in this order: the child count of the root (3), the output of the two
  leaves, the child count of the nested composite (1), and the output of the
  \<^verbatim>\<open>Leaf2\<close>. The five objects are distinct; the heap before the construction is
  arbitrary.
\<close>
theorem spec_scenario_render:
  assumes "distinct [root, l1, l2, child, l3]"
  shows "\<exists>w. spec_scenario root l1 l2 child l3 w0 = Inr w \<and>
     (\<forall>n \<ge> 3. Component_show n root w = Some (Inr (w\<lparr>cout := cout w0 @
        [Str ''Size:'', Num 3, Endl, Str ''Leaf '', Ptr l1, Endl, Str ''Leaf '', Ptr l2, Endl,
         Str ''Size:'', Num 1, Endl, Str ''Leaf2 '', Ptr l3, Endl]\<rparr>)))"
proof -
  let ?w = "w0\<lparr>heap := (heap w0)(root \<mapsto> Composite [l1, l2, child], l1 \<mapsto> Leaf, l2 \<mapsto> Leaf,
                child \<mapsto> Composite [l3], l3 \<mapsto> Leaf2)\<rparr>"
  let ?t = "TComposite [TLeaf l1, TLeaf l2, TComposite [TLeaf2 l3]]"
  have build: "spec_scenario root l1 l2 child l3 w0 = Inr ?w"
    using assms by (rule spec_scenario_heap)
  have tree: "subtree_at (heap ?w) root ?t" using assms by auto
  have "\<forall>n \<ge> 3. Component_show n root ?w = Some (Inr (?w\<lparr>cout := cout ?w @ spec_render ?t\<rparr>))"
  proof (intro allI impI)
    fix n :: nat assume "3 \<le> n"
    then have "depth ?t \<le> n" by simp
    with tree show "Component_show n root ?w = Some (Inr (?w\<lparr>cout := cout ?w @ spec_render ?t\<rparr>))"
      by (rule show_up)
  qed
  with build show ?thesis by simp
qed

theorem spec_scenario_render_witness:
  "distinct [10, 11, 12, 13, 14 :: addr] \<and>
   (\<exists>w. spec_scenario 10 11 12 13 14 \<lparr>heap = Map.empty, cout = []\<rparr> = Inr w \<and>
     (\<forall>n \<ge> 3. Component_show n 10 w = Some (Inr (w\<lparr>cout := cout \<lparr>heap = Map.empty, cout = []\<rparr> @
        [Str ''Size:'', Num 3, Endl, Str ''Leaf '', Ptr 11, Endl, Str ''Leaf '', Ptr 12, Endl,
         Str ''Size:'', Num 1, Endl, Str ''Leaf2 '', Ptr 14, Endl]\<rparr>))))"
  using spec_scenario_render [of 10 11 12 13 14 "\<lparr>heap = Map.empty, cout = []\<rparr>"]
  by simp

text \<open>
  The demo of main.cpp builds a larger tree (three leaves and a composite of two
  leaves below the root) and prints it the same way.
\<close>

lemma composite_output:
  assumes "distinct [tree, a, b, c, tree2, d, e]" and "3 \<le> n"
  shows "\<exists>w'. composite tree a b c tree2 d e n w = Some (Inr w') \<and>
     cout w' = cout w @
        [Str ''Size:'', Num 4, Endl, Str ''Leaf '', Ptr a, Endl, Str ''Leaf '', Ptr b, Endl,
         Str ''Leaf2 '', Ptr c, Endl, Str ''Size:'', Num 2, Endl, Str ''Leaf '', Ptr d, Endl,
         Str ''Leaf2 '', Ptr e, Endl]"
proof -
  let ?w = "w\<lparr>heap := (heap w)(tree \<mapsto> Composite [a, b, c, tree2], a \<mapsto> Leaf, b \<mapsto> Leaf,
                c \<mapsto> Leaf2, tree2 \<mapsto> Composite [d, e], d \<mapsto> Leaf, e \<mapsto> Leaf2)\<rparr>"
  let ?t = "TComposite [TLeaf a, TLeaf b, TLeaf2 c, TComposite [TLeaf d, TLeaf2 e]]"
  have build: "composite tree a b c tree2 d e n w = Component_show n tree ?w"
    using assms(1)
    by (auto simp: composite_def and_then_def Composite_add_def new_def fun_upd_def
        intro!: arg_cong2[where f = "\<lambda>h w. Component_show n tree (w\<lparr>heap := h\<rparr>)"])
  have "subtree_at (heap ?w) tree ?t" using assms(1) by auto
  moreover have "depth ?t \<le> n" using assms(2) by simp
  ultimately have "Component_show n tree ?w = Some (Inr (?w\<lparr>cout := cout ?w @ spec_render ?t\<rparr>))"
    by (rule show_up)
  with build show ?thesis by simp
qed

text \<open>
  Claim C6 says that a composite whose children are one empty composite and two
  leaves reports 2 children at the top level. The code prints
  \<^verbatim>\<open>m_children.size()\<close>, the number of immediate children, and the nested
  composite is one of them: on the heap below the top-level line reads 3, not 2.
\<close>
theorem nested_count_counterexample:
  "Component_show (Suc (Suc 0)) 1 \<lparr>heap = heap_nested, cout = []\<rparr> =
     Some (Inr \<lparr>heap = heap_nested,
       cout = [Str ''Size:'', Num 3, Endl, Str ''Size:'', Num 0, Endl,
               Str ''Leaf '', Ptr 3, Endl, Str ''Leaf '', Ptr 4, Endl]\<rparr>) \<and>
   Component_show (Suc (Suc 0)) 1 \<lparr>heap = heap_nested, cout = []\<rparr> \<noteq>
     Some (Inr \<lparr>heap = heap_nested,
       cout = [Str ''Size:'', Num 2, Endl, Str ''Size:'', Num 0, Endl,
               Str ''Leaf '', Ptr 3, Endl, Str ''Leaf '', Ptr 4, Endl]\<rparr>)"
  by (simp add: Leaf_show_def)

text \<open>
  Claim C6, amended. A composite whose children are, in insertion order, one empty
  composite and two leaves reports 3 children at the top level and 0 children for
  the nested composite, with the two leaves rendered after the line of the nested
  composite, in insertion order.
\<close>
theorem nested_composite_render:
  assumes "heap w p = Some (Composite [e, l1, l2])"
    and "heap w e = Some (Composite [])"
    and "heap w l1 = Some Leaf"
    and "heap w l2 = Some Leaf"
  shows "Component_show (Suc (Suc n)) p w = Some (Inr (w\<lparr>cout := cout w @
      [Str ''Size:'', Num 3, Endl, Str ''Size:'', Num 0, Endl,
       Str ''Leaf '', Ptr l1, Endl, Str ''Leaf '', Ptr l2, Endl]\<rparr>))"
proof -
  have "subtree_at (heap w) p (TComposite [TComposite [], TLeaf l1, TLeaf l2])"
    using assms by simp
  moreover have "depth (TComposite [TComposite [], TLeaf l1, TLeaf l2]) \<le> Suc (Suc n)"
    by simp
  ultimately have "Component_show (Suc (Suc n)) p w = Some (Inr (w\<lparr>cout := cout w @
      spec_render (TComposite [TComposite [], TLeaf l1, TLeaf l2])\<rparr>))"
    by (rule show_up)
  then show ?thesis by simp
qed

theorem nested_composite_render_witness:
  "heap \<lparr>heap = heap_nested, cout = []\<rparr> 1 = Some (Composite [2, 3, 4]) \<and>
   heap \<lparr>heap = heap_nested, cout = []\<rparr> 2 = Some (Composite []) \<and>
   heap \<lparr>heap = heap_nested, cout = []\<rparr> 3 = Some Leaf \<and>
   heap \<lparr>heap = heap_nested, cout = []\<rparr> 4 = Some Leaf \<and>
   Component_show (Suc (Suc 0)) 1 \<lparr>heap = heap_nested, cout = []\<rparr> =
     Some (Inr \<lparr>heap = heap_nested,
       cout = [Str ''Size:'', Num 3, Endl, Str ''Size:'', Num 0, Endl,
               Str ''Leaf '', Ptr 3, Endl, Str ''Leaf '', Ptr 4, Endl]\<rparr>)"
  using nested_composite_render [of "\<lparr>heap = heap_nested, cout = []\<rparr>" 1 2 3 4 0]
  by simp

section \<open>What the output depends on\<close>







section \<open>Rendering is read-only and repeatable\<close>

text \<open>
  Claim C10. Calling render (\<^verbatim>\<open>show\<close>) on a composite leaves the child sequence of
  that composite, and of every composite below it, unchanged: a call that returns
  hands back the heap it was given, for the virtual call through any pointer and for
  the body of \<^verbatim>\<open>Composite::show\<close>.
\<close>
theorem show_preserves_heap:
  "(Component_show n p w = Some (Inr w') \<longrightarrow> heap w' = heap w) \<and>
   (Composite_show n p w = Some (Inr w'') \<longrightarrow> heap w'' = heap w)"
proof (intro conjI impI)
  assume "Component_show n p w = Some (Inr w')"
  then obtain t where "w' = w\<lparr>cout := cout w @ spec_render t\<rparr>"
    using show_down by blast
  then show "heap w' = heap w" by simp
next
  assume "Composite_show n p w = Some (Inr w'')"
  then have "\<exists>os. w'' = w\<lparr>cout := cout w @ os\<rparr>"
    using Composite_show_down[of n p w w''] by auto
  then obtain os where "w'' = w\<lparr>cout := cout w @ os\<rparr>" ..
  then show "heap w'' = heap w" by simp
qed

theorem show_preserves_heap_witness:
  "Component_show (Suc (Suc 0)) 1 \<lparr>heap = heap_small, cout = []\<rparr> =
     Some (Inr \<lparr>heap = heap_small,
       cout = [Str ''Size:'', Num 1, Endl, Str ''Leaf2 '', Ptr 2, Endl]\<rparr>) \<and>
   Composite_show (Suc 0) 1 \<lparr>heap = heap_small, cout = []\<rparr> =
     Some (Inr \<lparr>heap = heap_small,
       cout = [Str ''Size:'', Num 1, Endl, Str ''Leaf2 '', Ptr 2, Endl]\<rparr>) \<and>
   heap \<lparr>heap = heap_small,
         cout = [Str ''Size:'', Num 1, Endl, Str ''Leaf2 '', Ptr 2, Endl]\<rparr> =
     heap \<lparr>heap = heap_small, cout = []\<rparr>"
  using show_preserves_heap [of "Suc (Suc 0)" 1 "\<lparr>heap = heap_small, cout = []\<rparr>"
      "\<lparr>heap = heap_small,
        cout = [Str ''Size:'', Num 1, Endl, Str ''Leaf2 '', Ptr 2, Endl]\<rparr>"
      "\<lparr>heap = heap_small,
        cout = [Str ''Size:'', Num 1, Endl, Str ''Leaf2 '', Ptr 2, Endl]\<rparr>"]
  by (simp add: Leaf2_show_def)



section \<open>Termination\<close>

text \<open>
  Claim C9. On a heap that holds a finite tree below the root (every pointer valid, no
  composite reachable from itself: the caller's obligation, which the code never
  checks), render on the root returns, whatever the nesting depth \<open>depth t\<close>, as
  soon as that many nested calls are allowed. In particular an empty composite
  renders its count line, with count 0 (the code prints it as \<^verbatim>\<open>Size:0\<close>), and
  nothing else.
\<close>
theorem show_terminates:
  "(subtree_at (heap w) p t \<longrightarrow>
      (\<exists>w'. \<forall>n \<ge> depth t. Component_show n p w = Some (Inr w'))) \<and>
   (heap w p = Some (Composite []) \<longrightarrow>
      Component_show (Suc n) p w = Some (Inr (w\<lparr>cout := cout w @ [Str ''Size:'', Num 0, Endl]\<rparr>)))"
proof (intro conjI impI)
  assume "subtree_at (heap w) p t"
  then have "\<forall>n \<ge> depth t. Component_show n p w = Some (Inr (w\<lparr>cout := cout w @ spec_render t\<rparr>))"
    by (simp add: show_up)
  then show "\<exists>w'. \<forall>n \<ge> depth t. Component_show n p w = Some (Inr w')" by blast
next
  assume "heap w p = Some (Composite [])"
  then show "Component_show (Suc n) p w = Some (Inr (w\<lparr>cout := cout w @ [Str ''Size:'', Num 0, Endl]\<rparr>))"
    by simp
qed

theorem show_terminates_witness:
  "subtree_at (heap \<lparr>heap = heap_deep, cout = []\<rparr>) 1
     (TComposite [TComposite [TComposite [TComposite []]], TLeaf 5]) \<and>
   (\<exists>w'. \<forall>n \<ge> depth (TComposite [TComposite [TComposite [TComposite []]], TLeaf (5::addr)]).
      Component_show n 1 \<lparr>heap = heap_deep, cout = []\<rparr> = Some (Inr w')) \<and>
   heap \<lparr>heap = heap_deep, cout = []\<rparr> 4 = Some (Composite []) \<and>
   Component_show (Suc 0) 4 \<lparr>heap = heap_deep, cout = []\<rparr> =
     Some (Inr \<lparr>heap = heap_deep, cout = [Str ''Size:'', Num 0, Endl]\<rparr>)"
  using show_terminates [of "\<lparr>heap = heap_deep, cout = []\<rparr>" 1
      "TComposite [TComposite [TComposite [TComposite []]], TLeaf 5]"]
    show_terminates [of "\<lparr>heap = heap_deep, cout = []\<rparr>" 4 _ 0]
  by simp

text \<open>
  The same precondition in terms of the pointer graph: a finite heap whose child
  pointers all point to live objects and whose pointer graph has no cycle unfolds to a
  tree below each of its objects, so render returns there. Without it the call need
  not return: a composite that is its own child is never rendered.
\<close>

lemma wf_heap_unfolds:
  assumes wf: "wf (child_rel h)"
    and closed: "\<And>q cs c. h q = Some (Composite cs) \<Longrightarrow> c \<in> set cs \<Longrightarrow> c \<in> dom h"
  shows "p \<in> dom h \<Longrightarrow> \<exists>t. subtree_at h p t"
  using wf
proof (induction p rule: wf_induct_rule)
  case (less p)
  from less.prems obtain obj where obj: "h p = Some obj" by blast
  show ?case
  proof (cases obj)
    case Leaf
    with obj have "subtree_at h p (TLeaf p)" by simp
    then show ?thesis ..
  next
    case Leaf2
    with obj have "subtree_at h p (TLeaf2 p)" by simp
    then show ?thesis ..
  next
    case (Composite cs)
    have "\<forall>c \<in> set cs. \<exists>t. subtree_at h c t"
    proof
      fix c assume c: "c \<in> set cs"
      with obj Composite have "(c, p) \<in> child_rel h" by (auto simp: child_rel_def)
      moreover have "c \<in> dom h" using closed obj Composite c by blast
      ultimately show "\<exists>t. subtree_at h c t" by (rule less.IH)
    qed
    then have "\<exists>ts. list_all2 (subtree_at h) cs ts"
      by (induction cs) (auto simp: list_all2_Cons1)
    then obtain ts where "list_all2 (subtree_at h) cs ts" ..
    with obj Composite have "subtree_at h p (TComposite ts)" by simp
    then show ?thesis ..
  qed
qed

lemma acyclic_heap_unfolds:
  assumes fin: "finite (dom h)"
    and acyc: "acyclic (child_rel h)"
    and closed: "\<And>q cs c. h q = Some (Composite cs) \<Longrightarrow> c \<in> set cs \<Longrightarrow> c \<in> dom h"
    and p: "p \<in> dom h"
  shows "\<exists>t. subtree_at h p t"
proof -
  have "child_rel h \<subseteq> dom h \<times> dom h"
    using closed by (auto simp: child_rel_def)
  with fin have "finite (child_rel h)" by (meson finite_SigmaI finite_subset)
  with acyc have "wf (child_rel h)" by (simp add: finite_acyclic_wf)
  then show ?thesis using closed p by (rule wf_heap_unfolds)
qed

lemma cycle_never_returns:
  assumes "heap w p = Some (Composite cs)" and "p \<in> set cs"
  shows "Component_show n p w \<noteq> Some (Inr w')"
proof
  assume "Component_show n p w = Some (Inr w')"
  then obtain t where t: "subtree_at (heap w) p t" using show_down by blast
  with assms(1) obtain ts where ts: "t = TComposite ts"
    and all: "list_all2 (subtree_at (heap w)) cs ts"
    by (cases t) auto
  from assms(2) obtain i where i: "i < length cs" "cs ! i = p"
    by (auto simp: in_set_conv_nth)
  with all have "ts ! i \<in> set ts" "subtree_at (heap w) p (ts ! i)"
    by (auto simp: list_all2_conv_all_nth)
  then obtain t' where t': "t' \<in> set ts" "subtree_at (heap w) p t'" by blast
  from t t'(2) have "t' = t" by (rule subtree_at_unique[symmetric])
  with t'(1) ts have "depth t < depth t" using depth_le[of t ts] by simp
  then show False by simp
qed

lemma acyclic_heap_show_returns:
  assumes "finite (dom (heap w))"
    and "acyclic (child_rel (heap w))"
    and "\<And>q cs c. heap w q = Some (Composite cs) \<Longrightarrow> c \<in> set cs \<Longrightarrow> c \<in> dom (heap w)"
    and "p \<in> dom (heap w)"
  shows "\<exists>k w'. \<forall>n \<ge> k. Component_show n p w = Some (Inr w')"
proof -
  from assms obtain t where "subtree_at (heap w) p t"
    using acyclic_heap_unfolds[of "heap w" p] by blast
  then have "\<forall>n \<ge> depth t. Component_show n p w = Some (Inr (w\<lparr>cout := cout w @ spec_render t\<rparr>))"
    by (simp add: show_up)
  then show ?thesis by blast
qed

section \<open>Removing a child, and reading the children\<close>

lemma std_find_absent: "c \<notin> set xs \<Longrightarrow> std_find xs c = length xs"
  by (induction xs) auto

lemma std_find_present:
  "c \<in> set xs \<Longrightarrow>
     std_find xs c < length xs \<and> xs ! std_find xs c = c \<and> c \<notin> set (take (std_find xs c) xs)"
  by (induction xs) auto

lemma erase_std_find: "erase xs (std_find xs c) = remove1 c xs"
  by (induction xs) (auto simp: erase_def)

text \<open>
  Claim C5. \<^verbatim>\<open>remove(x)\<close> on a composite: when \<open>x\<close> is not among the children, the
  call is a silent no-op (no error, nothing changes); when \<open>x\<close> occurs among the
  children, exactly one entry is removed, the first one that is the same pointer, and
  the remaining children keep their relative order.
\<close>
theorem Composite_remove_first:
  assumes "heap w this = Some (Composite cs)"
  shows "(c \<notin> set cs \<longrightarrow> Composite_remove this c w = Inr w) \<and>
         (c \<in> set cs \<longrightarrow>
            (\<exists>pre post. cs = pre @ c # post \<and> c \<notin> set pre \<and>
               Composite_remove this c w =
                 Inr (w\<lparr>heap := (heap w)(this \<mapsto> Composite (pre @ post))\<rparr>)))"
proof (intro conjI impI)
  assume "c \<notin> set cs"
  then have "std_find cs c = length cs" by (rule std_find_absent)
  with assms show "Composite_remove this c w = Inr w"
    by (simp add: Composite_remove_def Let_def)
next
  assume "c \<in> set cs"
  then have i: "std_find cs c < length cs" "cs ! std_find cs c = c"
    "c \<notin> set (take (std_find cs c) cs)"
    using std_find_present[of c cs] by simp_all
  let ?pre = "take (std_find cs c) cs" and ?post = "drop (Suc (std_find cs c)) cs"
  have "cs = ?pre @ c # ?post" using i(1,2) id_take_nth_drop by fastforce
  moreover have "Composite_remove this c w =
      Inr (w\<lparr>heap := (heap w)(this \<mapsto> Composite (?pre @ ?post))\<rparr>)"
    using assms i(1) by (simp add: Composite_remove_def erase_def Let_def)
  ultimately show "\<exists>pre post. cs = pre @ c # post \<and> c \<notin> set pre \<and>
      Composite_remove this c w = Inr (w\<lparr>heap := (heap w)(this \<mapsto> Composite (pre @ post))\<rparr>)"
    using i(3) by blast
qed

theorem Composite_remove_first_witness:
  "heap \<lparr>heap = heap_dup, cout = []\<rparr> 1 = Some (Composite [2, 3, 2, 4]) \<and>
   5 \<notin> set [2, 3, 2, 4 :: addr] \<and>
   Composite_remove 1 5 \<lparr>heap = heap_dup, cout = []\<rparr> = Inr \<lparr>heap = heap_dup, cout = []\<rparr> \<and>
   2 \<in> set [2, 3, 2, 4 :: addr] \<and>
   (\<exists>pre post. [2, 3, 2, 4 :: addr] = pre @ 2 # post \<and> 2 \<notin> set pre \<and>
      Composite_remove 1 2 \<lparr>heap = heap_dup, cout = []\<rparr> =
        Inr \<lparr>heap = heap_dup(1 \<mapsto> Composite (pre @ post)), cout = []\<rparr>) \<and>
   Composite_remove 1 2 \<lparr>heap = heap_dup, cout = []\<rparr> =
     Inr \<lparr>heap = heap_dup(1 \<mapsto> Composite [3, 2, 4]), cout = []\<rparr>"
proof -
  have h: "heap \<lparr>heap = heap_dup, cout = []\<rparr> 1 = Some (Composite [2, 3, 2, 4])" by simp
  have a: "5 \<notin> set [2, 3, 2, 4 :: addr]" by simp
  have b: "2 \<in> set [2, 3, 2, 4 :: addr]" by simp
  have c: "Composite_remove 1 2 \<lparr>heap = heap_dup, cout = []\<rparr> =
      Inr \<lparr>heap = heap_dup(1 \<mapsto> Composite [3, 2, 4]), cout = []\<rparr>"
    by (simp add: Composite_remove_def erase_def)
  show ?thesis
    using h a b c Composite_remove_first [OF h, of 5] Composite_remove_first [OF h, of 2]
    by simp
qed

lemma Composite_remove_remove1:
  "heap w this = Some (Composite cs) \<Longrightarrow> c \<in> set cs \<Longrightarrow>
     Composite_remove this c w = Inr (w\<lparr>heap := (heap w)(this \<mapsto> Composite (remove1 c cs))\<rparr>)"
  using std_find_present[of c cs] by (simp add: Composite_remove_def erase_std_find Let_def)

text \<open>
  Claim C8. \<^verbatim>\<open>getChildren()\<close> returns a snapshot copy of the child sequence: the
  result is the sequence at the moment of the call, and a later \<^verbatim>\<open>add\<close> or
  \<^verbatim>\<open>remove\<close> changes the composite but not a sequence returned before. Below, the
  children are read, the composite is changed, and the children are read again: the
  first result is still the old sequence, the second the new one.
\<close>
theorem getChildren_snapshot:
  assumes "heap w this = Some (Composite cs)"
  shows "Composite_getChildren this w = Inr cs \<and>
         and_then (Composite_getChildren this w) (\<lambda>r.
         and_then (Composite_add this c w) (\<lambda>w'.
         and_then (Composite_getChildren this w') (\<lambda>r'. Inr (r, r'))))
           = Inr (cs, cs @ [c]) \<and>
         and_then (Composite_getChildren this w) (\<lambda>r.
         and_then (Composite_remove this c w) (\<lambda>w'.
         and_then (Composite_getChildren this w') (\<lambda>r'. Inr (r, r'))))
           = Inr (cs, remove1 c cs)"
proof (intro conjI)
  show "Composite_getChildren this w = Inr cs"
    using assms by (simp add: Composite_getChildren_def)
  show "and_then (Composite_getChildren this w) (\<lambda>r.
         and_then (Composite_add this c w) (\<lambda>w'.
         and_then (Composite_getChildren this w') (\<lambda>r'. Inr (r, r'))))
           = Inr (cs, cs @ [c])"
    using assms by (simp add: and_then_def Composite_add_def Composite_getChildren_def)
  show "and_then (Composite_getChildren this w) (\<lambda>r.
         and_then (Composite_remove this c w) (\<lambda>w'.
         and_then (Composite_getChildren this w') (\<lambda>r'. Inr (r, r'))))
           = Inr (cs, remove1 c cs)"
  proof (cases "c \<in> set cs")
    case True
    with assms show ?thesis
      by (simp add: and_then_def Composite_remove_remove1 Composite_getChildren_def)
  next
    case False
    then have "std_find cs c = length cs" by (rule std_find_absent)
    with assms False show ?thesis
      by (simp add: and_then_def Composite_remove_def Composite_getChildren_def remove1_idem)
  qed
qed

theorem getChildren_snapshot_witness:
  "heap \<lparr>heap = heap_pair, cout = []\<rparr> 1 = Some (Composite [2, 3]) \<and>
   Composite_getChildren 1 \<lparr>heap = heap_pair, cout = []\<rparr> = Inr [2, 3] \<and>
   and_then (Composite_getChildren 1 \<lparr>heap = heap_pair, cout = []\<rparr>) (\<lambda>r.
   and_then (Composite_add 1 2 \<lparr>heap = heap_pair, cout = []\<rparr>) (\<lambda>w'.
   and_then (Composite_getChildren 1 w') (\<lambda>r'. Inr (r, r')))) = Inr ([2, 3], [2, 3, 2]) \<and>
   and_then (Composite_getChildren 1 \<lparr>heap = heap_pair, cout = []\<rparr>) (\<lambda>r.
   and_then (Composite_remove 1 2 \<lparr>heap = heap_pair, cout = []\<rparr>) (\<lambda>w'.
   and_then (Composite_getChildren 1 w') (\<lambda>r'. Inr (r, r')))) = Inr ([2, 3], [3])"
  using getChildren_snapshot [of "\<lparr>heap = heap_pair, cout = []\<rparr>" 1 "[2, 3]" 2]
  by (simp add: Composite_getChildren_def)

section \<open>Double dispatch\<close>

text \<open>
  Claim C2. For every element variant and visitor variant, \<^verbatim>\<open>element.accept(visitor)\<close>
  invokes exactly the operation registered for that pair, once, and no other: the
  effect of the call is the effect of the registered operation of a pair exactly when
  the pair is this one, and it consists of one line on the stream.
\<close>
theorem accept_double_dispatch:
  "((Element_accept e v w = registered e' v' w) = (e' = e \<and> v' = v)) \<and>
   (\<exists>msg. Element_accept e v w = w\<lparr>cout := cout w @ [Str msg, Endl]\<rparr>)"
proof (intro conjI)
  have acc: "Element_accept e v w = registered e v w"
    by (cases e; cases v) (simp_all add: ConcreteElement1_accept_def ConcreteElement2_accept_def)
  have "(cout (registered e v w) = cout (registered e' v' w)) = (e' = e \<and> v' = v)"
    by (cases e; cases v; cases e'; cases v')
      (simp_all add:
        ConcreteVisitor1_visit_ConcreteElement1_def ConcreteVisitor1_visit_ConcreteElement2_def
        ConcreteVisitor2_visit_ConcreteElement1_def ConcreteVisitor2_visit_ConcreteElement2_def)
  then show "(Element_accept e v w = registered e' v' w) = (e' = e \<and> v' = v)"
    unfolding acc by auto
  show "\<exists>msg. Element_accept e v w = w\<lparr>cout := cout w @ [Str msg, Endl]\<rparr>"
    by (cases e; cases v;
        simp add: ConcreteElement1_accept_def ConcreteElement2_accept_def
          ConcreteVisitor1_visit_ConcreteElement1_def ConcreteVisitor1_visit_ConcreteElement2_def
          ConcreteVisitor2_visit_ConcreteElement1_def ConcreteVisitor2_visit_ConcreteElement2_def;
        (rule exI, rule refl))
qed

end
